theory Spec2Isabelle
  imports Complex_Main "HOL-Library.Monad_Syntax"
begin

section \<open>Values\<close>

text \<open>
  A numpy float is a real number, one of the two infinities, or NaN. The parameter
  validator is the only method that looks at the non-finite values; the formulas of the
  family are modelled in exact real arithmetic (rounding and overflow of float64 are not
  modelled), and a formula whose float evaluation leaves the reals (a division by zero, a
  NaN of a library function) returns \<open>None\<close>.
\<close>

datatype npfloat = Finite real | PosInf | NegInf | NaN

datatype py_error = NameError string

fun isfinite :: "npfloat \<Rightarrow> bool" where
  "isfinite (Finite r) = True"
| "isfinite PosInf = False"
| "isfinite NegInf = False"
| "isfinite NaN = False"

text \<open>The comparison \<open>a > 0\<close> of IEEE floats: false on NaN.\<close>

fun gt_zero :: "npfloat \<Rightarrow> bool" where
  "gt_zero (Finite r) = (0 < r)"
| "gt_zero PosInf = True"
| "gt_zero NegInf = False"
| "gt_zero NaN = False"

definition np_div :: "real \<Rightarrow> real \<Rightarrow> real option" where
  "np_div a b = (if b = 0 then None else Some (a / b))"

section \<open>Library functions used by the notebook\<close>

text \<open>
  \<open>scipy.special.erfc\<close> is the complementary error function \<open>1 - erf\<close>, where
  \<open>erf x = 2 / sqrt pi * integral of exp (- t^2) from 0 to x\<close>. The integral is given
  by its Maclaurin series, the sum of \<open>(-1)^k x^(2k+1) / (k! (2k+1))\<close>.
\<close>

definition gauss_prim_coeff :: "nat \<Rightarrow> real" where
  "gauss_prim_coeff n = (if odd n then (- 1) ^ (n div 2) / (fact (n div 2) * real n) else 0)"

definition gauss_prim :: "real \<Rightarrow> real" where
  "gauss_prim x = (\<Sum>n. gauss_prim_coeff n * x ^ n)"

definition erf :: "real \<Rightarrow> real" where
  "erf x = 2 / sqrt pi * gauss_prim x"

definition erfc :: "real \<Rightarrow> real" where
  "erfc x = 1 - erf x"

text \<open>
  \<open>scipy.stats.norm.cdf(x, loc, scale)\<close> is the normal cumulative function, the notebook's
  \<open>Phi(x, a, b) = 1/2 [1 + erf ((x - a) / (b sqrt 2))]\<close>; scipy returns NaN unless the
  scale is positive.
\<close>

definition norm_cdf :: "real \<Rightarrow> real \<Rightarrow> real \<Rightarrow> real option" where
  "norm_cdf x loc scale =
     (if 0 < scale then Some ((1 + erf ((x - loc) / (scale * sqrt 2))) / 2) else None)"

text \<open>
  \<open>np.arange(start, stop, step)\<close> has \<open>ceil ((stop - start) / step)\<close> elements
  \<open>start + i * step\<close>.
\<close>

definition np_arange :: "real \<Rightarrow> real \<Rightarrow> real \<Rightarrow> real list" where
  "np_arange start stop step =
     map (\<lambda>i. start + real i * step) [0 ..< nat \<lceil>(stop - start) / step\<rceil>]"

text \<open>
  \<open>np.interp(q, xp, fp)\<close>: the piecewise linear interpolant through the points
  \<open>(xp, fp)\<close>, for increasing \<open>xp\<close> (numpy does not check it); \<open>fp[0]\<close> left of the
  table and \<open>fp[-1]\<close> right of it. numpy finds the segment \<open>xp[j] \<le> q < xp[j+1]\<close> by
  binary search, the scan below finds the same one in an increasing table. An empty table
  is an error.
\<close>

fun interp_seg :: "real \<Rightarrow> (real \<times> real) list \<Rightarrow> real" where
  "interp_seg q [] = 0"
| "interp_seg q [(x0, y0)] = y0"
| "interp_seg q ((x0, y0) # (x1, y1) # ps) =
     (if q < x1 then
        (if x0 = q then y0 else (y1 - y0) / (x1 - x0) * (q - x0) + y0)
      else interp_seg q ((x1, y1) # ps))"

definition np_interp :: "real \<Rightarrow> real list \<Rightarrow> real list \<Rightarrow> real option" where
  "np_interp q xp fp =
     (if xp = [] \<or> length fp \<noteq> length xp then None
      else if last xp < q then Some (last fp)
      else if q < hd xp then Some (hd fp)
      else Some (interp_seg q (zip xp fp)))"

text \<open>
  \<open>st.norm.rvs(loc, scale, size)\<close> and \<open>st.expon.rvs(loc, scale, size)\<close> shift and scale
  draws of the standard normal and of the standard exponential distribution; the draws
  of the random generator are an argument of the model. A negative scale raises
  \<open>ValueError\<close> (no sample: \<open>None\<close>).
\<close>

definition norm_rvs :: "real \<Rightarrow> real \<Rightarrow> real list \<Rightarrow> real list option" where
  "norm_rvs loc scale zs = (if 0 \<le> scale then Some (map (\<lambda>z. loc + scale * z) zs) else None)"

definition expon_rvs :: "real \<Rightarrow> real \<Rightarrow> real list \<Rightarrow> real list option" where
  "expon_rvs loc scale es = (if 0 \<le> scale then Some (map (\<lambda>e. loc + scale * e) es) else None)"

section \<open>The EMG family\<close>

text \<open>\<open>EMG_gen1._pdf\<close>\<close>

definition EMG_gen1_pdf :: "real \<Rightarrow> real \<Rightarrow> real \<Rightarrow> real \<Rightarrow> real option" where
  "EMG_gen1_pdf x mu sig lam =
     (let u = 0.5 * lam * (2 * mu + lam * sig\<^sup>2 - 2 * x) in do {
        v \<leftarrow> np_div (mu + lam * sig\<^sup>2 - x) (sig * sqrt 2);
        Some (0.5 * lam * exp u * erfc v)
      })"

text \<open>\<open>EMG_gen1._cdf\<close>\<close>

definition EMG_gen1_cdf :: "real \<Rightarrow> real \<Rightarrow> real \<Rightarrow> real \<Rightarrow> real option" where
  "EMG_gen1_cdf x mu sig lam =
     (let u = lam * (x - mu);
          v = lam * sig in do {
        phi1 \<leftarrow> norm_cdf u 0 v;
        phi2 \<leftarrow> norm_cdf u (v\<^sup>2) v;
        Some (phi1 - phi2 * exp (- u + 0.5 * v\<^sup>2))
      })"

text \<open>
  \<open>EMG_gen1._stats\<close>: mean, variance, skewness and excess kurtosis. The kernel is
  Python 3, so \<open>-3 / 2\<close> is \<open>-1.5\<close>; \<open>u\<close> is at least 1 and the power is \<open>powr\<close>.
\<close>

definition EMG_gen1_stats :: "real \<Rightarrow> real \<Rightarrow> real \<Rightarrow> (real \<times> real \<times> real \<times> real) option" where
  "EMG_gen1_stats mu sig lam = do {
     il \<leftarrow> np_div 1 lam;
     let mean = mu + il;
     il2 \<leftarrow> np_div 1 (lam\<^sup>2);
     let var = sig\<^sup>2 + il2;
     let sl = sig * lam;
     isl2 \<leftarrow> np_div 1 (sl\<^sup>2);
     let u = 1 + isl2;
     q3 \<leftarrow> np_div 2 (sl ^ 3);
     let skew = q3 * u powr (- 3 / 2);
     q2 \<leftarrow> np_div 2 (sl\<^sup>2);
     q4 \<leftarrow> np_div 3 (sl ^ 4);
     v \<leftarrow> np_div (3 * (1 + q2 + q4)) (u\<^sup>2);
     let kurt = v - 3;
     Some (mean, var, skew, kurt)
   }"

text \<open>\<open>EMG_gen1._argcheck\<close>: \<open>np.isfinite(mu) and (sig > 0) and (lam > 0)\<close>\<close>

definition EMG_gen1_argcheck :: "npfloat \<Rightarrow> npfloat \<Rightarrow> npfloat \<Rightarrow> bool" where
  "EMG_gen1_argcheck mu sig lam \<longleftrightarrow> isfinite mu \<and> gt_zero sig \<and> gt_zero lam"

section \<open>The framework: classes and the public methods\<close>

text \<open>
  A subclass of \<open>rv_continuous\<close> is the record of the methods it defines or inherits;
  \<open>_ppf\<close> and \<open>_rvs\<close> are \<open>None\<close> where the class leaves them to the framework's
  numerical inversion.
\<close>

record rv_class =
  m_pdf :: "real \<Rightarrow> real \<Rightarrow> real \<Rightarrow> real \<Rightarrow> real option"
  m_cdf :: "real \<Rightarrow> real \<Rightarrow> real \<Rightarrow> real \<Rightarrow> real option"
  m_stats :: "real \<Rightarrow> real \<Rightarrow> real \<Rightarrow> (real \<times> real \<times> real \<times> real) option"
  m_argcheck :: "npfloat \<Rightarrow> npfloat \<Rightarrow> npfloat \<Rightarrow> bool"
  m_ppf :: "(real \<Rightarrow> real \<Rightarrow> real \<Rightarrow> real \<Rightarrow> real option) option"
  m_rvs :: "(real \<Rightarrow> real \<Rightarrow> real \<Rightarrow> (real \<times> real) list \<Rightarrow> real list option) option"

definition EMG_gen1 :: rv_class where
  "EMG_gen1 = \<lparr>m_pdf = EMG_gen1_pdf, m_cdf = EMG_gen1_cdf, m_stats = EMG_gen1_stats,
     m_argcheck = EMG_gen1_argcheck, m_ppf = None, m_rvs = None\<rparr>"

text \<open>
  The public methods \<open>pdf\<close>, \<open>cdf\<close> and \<open>stats\<close> (with \<open>moments='mvsk'\<close>) of
  \<open>rv_continuous\<close>, with the default \<open>loc = 0\<close> and \<open>scale = 1\<close> as the notebook calls
  them, at a finite \<open>x\<close>: they ask \<open>_argcheck\<close> first and put NaN where it fails,
  without calling the private method and without raising. The result is \<open>None\<close> where
  the model does not follow the float computation: parameters that pass the check with
  an infinite \<open>sig\<close> or \<open>lam\<close>, and formulas that leave the reals.
\<close>

fun with_params :: "(real \<Rightarrow> real \<Rightarrow> real \<Rightarrow> 'a option) \<Rightarrow> npfloat \<Rightarrow> npfloat \<Rightarrow> npfloat \<Rightarrow> 'a option" where
  "with_params f (Finite mu) (Finite sig) (Finite lam) = f mu sig lam"
| "with_params f mu sig lam = None"

definition rv_pdf :: "rv_class \<Rightarrow> real \<Rightarrow> npfloat \<Rightarrow> npfloat \<Rightarrow> npfloat \<Rightarrow> npfloat option" where
  "rv_pdf cls x mu sig lam =
     (if m_argcheck cls mu sig lam then map_option Finite (with_params (m_pdf cls x) mu sig lam)
      else Some NaN)"

definition rv_cdf :: "rv_class \<Rightarrow> real \<Rightarrow> npfloat \<Rightarrow> npfloat \<Rightarrow> npfloat \<Rightarrow> npfloat option" where
  "rv_cdf cls x mu sig lam =
     (if m_argcheck cls mu sig lam then map_option Finite (with_params (m_cdf cls x) mu sig lam)
      else Some NaN)"

definition rv_stats :: "rv_class \<Rightarrow> npfloat \<Rightarrow> npfloat \<Rightarrow> npfloat \<Rightarrow> (npfloat \<times> npfloat \<times> npfloat \<times> npfloat) option" where
  "rv_stats cls mu sig lam =
     (if m_argcheck cls mu sig lam then
        map_option (\<lambda>(mean, var, skew, kurt). (Finite mean, Finite var, Finite skew, Finite kurt))
          (with_params (m_stats cls) mu sig lam)
      else Some (NaN, NaN, NaN, NaN))"

fun finite_values :: "npfloat option list \<Rightarrow> real list option" where
  "finite_values [] = Some []"
| "finite_values (Some (Finite r) # vs) =
     (case finite_values vs of None \<Rightarrow> None | Some rs \<Rightarrow> Some (r # rs))"
| "finite_values (v # vs) = None"

text \<open>
  \<open>EMG_gen2._ppf\<close>. \<open>self.cdf\<close> is the public method, and \<open>_cdf\<close> of an \<open>EMG_gen2\<close>
  is the one inherited from \<open>EMG_gen1\<close>.
\<close>

definition EMG_gen2_ppf :: "real \<Rightarrow> real \<Rightarrow> real \<Rightarrow> real \<Rightarrow> real option" where
  "EMG_gen2_ppf q mu sig lam =
     do {
       il2 \<leftarrow> np_div 1 (lam\<^sup>2);
       let var = sig\<^sup>2 + il2;
       let x = np_arange (mu - 50 * sqrt var) (mu + 50 * sqrt var) 0.01;
       let y = map (\<lambda>t. rv_cdf EMG_gen1 t (Finite mu) (Finite sig) (Finite lam)) x;
       ys \<leftarrow> finite_values y;
       np_interp q ys x
     }"

text \<open>
  \<open>EMG_gen3._rvs\<close>: the two \<open>rvs\<close> calls have the same \<open>size\<close>, and \<open>draws\<close> pairs
  the standard normal draw with the standard exponential draw behind each sample.
\<close>

definition EMG_gen3_rvs :: "real \<Rightarrow> real \<Rightarrow> real \<Rightarrow> (real \<times> real) list \<Rightarrow> real list option" where
  "EMG_gen3_rvs mu sig lam draws =
     do {
       ns \<leftarrow> norm_rvs mu sig (map fst draws);
       il \<leftarrow> np_div 1 lam;
       es \<leftarrow> expon_rvs 0 il (map snd draws);
       Some (map2 (+) ns es)
     }"

definition EMG_gen2 :: rv_class where
  "EMG_gen2 = EMG_gen1\<lparr>m_ppf := Some EMG_gen2_ppf\<rparr>"

definition EMG_gen3 :: rv_class where
  "EMG_gen3 = EMG_gen1\<lparr>m_rvs := Some EMG_gen3_rvs\<rparr>"

section \<open>The notebook's last cell\<close>

text \<open>
  The names bound at top level by the cells of the notebook, in order, when the cell
  \<open>print('best fit: {0}'.format(EMG.fit(sample_emg, floc=0, fscale=1)))\<close> runs (the
  builtins and the names of the IPython shell are left out: \<open>EMG\<close> is none of them).
  Looking up a name that is not bound raises \<open>NameError\<close>; the fit itself is scipy's
  and is an argument of the model.
\<close>

definition notebook_globals :: "string list" where
  "notebook_globals =
     [''np'', ''st'', ''erfc'', ''plt'', ''hist'', ''mpl_style'',
      ''norm'', ''x'', ''sample_norm'', ''i'',
      ''EMG_gen1'', ''EMG_gen2'', ''EMG_gen3'', ''EMG1'', ''EMG2'', ''EMG3'',
      ''dist'', ''sample_emg'']"

definition lookup_global :: "string \<Rightarrow> py_error + string" where
  "lookup_global name = (if name \<in> set notebook_globals then Inr name else Inl (NameError name))"

definition fit_cell :: "(string \<Rightarrow> string \<Rightarrow> real \<times> real \<times> real) \<Rightarrow> py_error + (real \<times> real \<times> real)" where
  "fit_cell fit =
     (case lookup_global ''EMG'' of
        Inl e \<Rightarrow> Inl e
      | Inr d \<Rightarrow>
         (case lookup_global ''sample_emg'' of
            Inl e \<Rightarrow> Inl e
          | Inr s \<Rightarrow> Inr (fit d s)))"

section \<open>Values of the methods, and integrals over the real line\<close>








text \<open>
  Antiderivatives of the powers of the cosine, and their values at \<open>pi / 2\<close>: the
  Wallis integrals, which bound the integral of \<open>exp (- t^2)\<close>.
\<close>

fun cos_prim :: "nat \<Rightarrow> real \<Rightarrow> real" where
  "cos_prim 0 t = t"
| "cos_prim (Suc 0) t = sin t"
| "cos_prim (Suc (Suc n)) t =
     (cos t ^ Suc n * sin t + real (Suc n) * cos_prim n t) / real (Suc (Suc n))"

definition wallis :: "nat \<Rightarrow> real" where
  "wallis n = cos_prim n (pi / 2)"

section \<open>The integral of the Gaussian\<close>

subsection \<open>The series and its derivative\<close>

lemma diffs_gauss_prim_coeff:
  "diffs gauss_prim_coeff n = (if even n then (- 1) ^ (n div 2) / fact (n div 2) else 0)"
  by (auto simp: diffs_def gauss_prim_coeff_def field_simps simp del: of_nat_Suc)

lemma exp_neg_sq_sums: "(\<lambda>n. diffs gauss_prim_coeff n * x ^ n) sums exp (- (x\<^sup>2))"
proof -
  have "(\<lambda>k. (- (x\<^sup>2)) ^ k /\<^sub>R fact k) sums exp (- (x\<^sup>2))"
    by (rule exp_converges)
  then have "(\<lambda>k. (- 1) ^ k / fact k * (x\<^sup>2) ^ k) sums exp (- (x\<^sup>2))"
    by (simp add: power_minus [of "x\<^sup>2"] divide_inverse mult_ac)
  from sums_if [OF sums_zero this]
  have "(\<lambda>n. if even n then (- 1) ^ (n div 2) / fact (n div 2) * (x\<^sup>2) ^ (n div 2) else 0)
      sums exp (- (x\<^sup>2))"
    by simp
  also have "(\<lambda>n. if even n then (- 1) ^ (n div 2) / fact (n div 2) * (x\<^sup>2) ^ (n div 2) else 0)
    = (\<lambda>n. diffs gauss_prim_coeff n * x ^ n)"
    by (rule ext) (auto simp: diffs_gauss_prim_coeff power_mult elim!: evenE)
  finally show ?thesis .
qed

lemma summable_gauss_prim: "summable (\<lambda>n. gauss_prim_coeff n * x ^ n)"
proof -
  have "summable (\<lambda>n. norm (diffs gauss_prim_coeff n * x ^ n))"
  proof -
    have "summable (\<lambda>k. norm ((x\<^sup>2) ^ k /\<^sub>R fact k))"
      by (rule summable_norm_exp)
    then have s: "(\<lambda>k. (x\<^sup>2) ^ k / fact k) sums (\<Sum>k. (x\<^sup>2) ^ k / fact k)"
      by (simp add: divide_inverse mult_ac summable_sums_iff)
    from sums_if [OF sums_zero s]
    have "summable (\<lambda>n. if even n then (x\<^sup>2) ^ (n div 2) / fact (n div 2) else 0)"
      by (simp add: sums_iff)
    also have "(\<lambda>n. if even n then (x\<^sup>2) ^ (n div 2) / fact (n div 2) else 0) =
       (\<lambda>n. norm (diffs gauss_prim_coeff n * x ^ n))"
      by (rule ext) (auto simp: diffs_gauss_prim_coeff abs_mult power_mult power_abs elim!: evenE)
    finally show ?thesis .
  qed
  then have "summable (\<lambda>n. \<bar>x\<bar> * norm (diffs gauss_prim_coeff n * x ^ n))"
    by (rule summable_mult)
  then have "summable (\<lambda>n. norm (gauss_prim_coeff (Suc n) * x ^ Suc n))"
  proof (rule summable_comparison_test [rotated], intro exI allI impI)
    fix n :: nat
    have "norm (gauss_prim_coeff (Suc n) * x ^ Suc n) = \<bar>gauss_prim_coeff (Suc n)\<bar> * \<bar>x\<bar> * \<bar>x\<bar> ^ n"
      by (simp add: abs_mult power_abs)
    also have "\<dots> \<le> \<bar>diffs gauss_prim_coeff n\<bar> * \<bar>x\<bar> * \<bar>x\<bar> ^ n"
    proof -
      have "\<bar>gauss_prim_coeff (Suc n)\<bar> \<le> \<bar>diffs gauss_prim_coeff n\<bar>"
        by (simp add: diffs_def abs_mult del: of_nat_Suc) (simp add: mult_le_cancel_right1)
      then show ?thesis
        by (intro mult_right_mono) auto
    qed
    finally show "norm (norm (gauss_prim_coeff (Suc n) * x ^ Suc n))
        \<le> \<bar>x\<bar> * norm (diffs gauss_prim_coeff n * x ^ n)"
      by (simp add: abs_mult power_abs mult_ac)
  qed
  then have "summable (\<lambda>n. gauss_prim_coeff (Suc n) * x ^ Suc n)"
    by (rule summable_norm_cancel)
  then show ?thesis
    by (subst (asm) summable_Suc_iff)
qed

lemma DERIV_gauss_prim: "DERIV gauss_prim x :> exp (- (x\<^sup>2))"
proof -
  have "DERIV (\<lambda>x. \<Sum>n. gauss_prim_coeff n * x ^ n) x :> (\<Sum>n. diffs gauss_prim_coeff n * x ^ n)"
    by (rule termdiffs_strong [where K = "\<bar>x\<bar> + 1"]) (auto simp: summable_gauss_prim)
  moreover have "(\<Sum>n. diffs gauss_prim_coeff n * x ^ n) = exp (- (x\<^sup>2))"
    using exp_neg_sq_sums by (rule sums_unique [symmetric])
  ultimately show ?thesis
    unfolding gauss_prim_def [abs_def] by simp
qed

lemma gauss_prim_0: "gauss_prim 0 = 0"
  by (simp add: gauss_prim_def gauss_prim_coeff_def)

lemma gauss_prim_minus: "gauss_prim (- x) = - gauss_prim x"
proof -
  have "(\<lambda>n. gauss_prim_coeff n * (- x) ^ n) = (\<lambda>n. - (gauss_prim_coeff n * x ^ n))"
    by (rule ext) (simp add: gauss_prim_coeff_def)
  then show ?thesis
    by (simp add: gauss_prim_def suminf_minus [OF summable_gauss_prim])
qed

lemma gauss_prim_strict_mono: "a < b \<Longrightarrow> gauss_prim a < gauss_prim b"
  by (rule DERIV_pos_imp_increasing [of a b gauss_prim])
     (auto intro!: exI DERIV_gauss_prim)

lemma gauss_prim_mono: "a \<le> b \<Longrightarrow> gauss_prim a \<le> gauss_prim b"
  using gauss_prim_strict_mono [of a b] by (cases "a = b") auto

subsection \<open>Wallis integrals\<close>

lemma cos_prim_0 [simp]: "cos_prim n 0 = 0"
  by (induction n "0::real" rule: cos_prim.induct) simp_all

lemma DERIV_cos_prim: "DERIV (cos_prim n) t :> cos t ^ n"
proof (induction n t rule: cos_prim.induct)
  case (1 t)
  show ?case by (simp add: cos_prim.simps(1) [abs_def])
next
  case (2 t)
  show ?case by (simp add: cos_prim.simps(2) [abs_def])
next
  case (3 n t)
  have "DERIV (\<lambda>t. (cos t ^ Suc n * sin t + real (Suc n) * cos_prim n t) / real (Suc (Suc n))) t
      :> (cos t ^ Suc n * cos t + (real (Suc n) * cos t ^ n * (- sin t)) * sin t
           + real (Suc n) * cos t ^ n) / real (Suc (Suc n))"
    by (rule derivative_eq_intros "3.IH" refl | simp)+
  also have "(cos t ^ Suc n * cos t + (real (Suc n) * cos t ^ n * (- sin t)) * sin t
           + real (Suc n) * cos t ^ n) / real (Suc (Suc n)) = cos t ^ Suc (Suc n)"
  proof -
    have s: "sin t * sin t = 1 - cos t * cos t"
      using sin_cos_squared_add [of t] by (simp add: power2_eq_square algebra_simps)
    have "cos t ^ Suc n * cos t + (real (Suc n) * cos t ^ n * (- sin t)) * sin t
           + real (Suc n) * cos t ^ n
        = cos t ^ Suc n * cos t - real (Suc n) * cos t ^ n * (sin t * sin t) + real (Suc n) * cos t ^ n"
      by (simp add: algebra_simps)
    also have "\<dots> = real (Suc (Suc n)) * cos t ^ Suc (Suc n)"
      unfolding s by (simp add: algebra_simps)
    finally show ?thesis by simp
  qed
  finally show ?case
    by (simp add: cos_prim.simps(3) [abs_def])
qed

lemma wallis_0: "wallis 0 = pi / 2" and wallis_1: "wallis (Suc 0) = 1"
  by (simp_all add: wallis_def)

lemma wallis_Suc_Suc: "wallis (Suc (Suc n)) = real (Suc n) / real (Suc (Suc n)) * wallis n"
  by (simp add: wallis_def)

lemma cos_prim_mono:
  assumes "0 \<le> a" "a \<le> b" "b \<le> pi / 2"
  shows "cos_prim n a \<le> cos_prim n b"
proof (rule DERIV_nonneg_imp_nondecreasing [OF \<open>a \<le> b\<close>])
  fix t assume "a \<le> t" "t \<le> b"
  then have "0 \<le> cos t"
    using assms by (intro cos_ge_zero) auto
  then show "\<exists>y. DERIV (cos_prim n) t :> y \<and> 0 \<le> y"
    using DERIV_cos_prim [of n t] by (auto intro!: exI [of _ "cos t ^ n"])
qed

lemma cos_prim_nonneg: "0 \<le> t \<Longrightarrow> t \<le> pi / 2 \<Longrightarrow> 0 \<le> cos_prim n t"
  using cos_prim_mono [of 0 t n] by simp

lemma wallis_decreasing: "wallis (Suc n) \<le> wallis n"
proof -
  have "cos_prim n 0 - cos_prim (Suc n) 0 \<le> cos_prim n (pi / 2) - cos_prim (Suc n) (pi / 2)"
  proof (rule DERIV_nonneg_imp_nondecreasing [where f = "\<lambda>t. cos_prim n t - cos_prim (Suc n) t"])
    show "0 \<le> pi / 2" by simp
  next
    fix t :: real assume t: "0 \<le> t" "t \<le> pi / 2"
    then have c: "0 \<le> cos t" "cos t \<le> 1"
      by (auto intro!: cos_ge_zero)
    have "DERIV (\<lambda>t. cos_prim n t - cos_prim (Suc n) t) t :> cos t ^ n - cos t ^ Suc n"
      by (intro derivative_intros DERIV_cos_prim)
    moreover have "0 \<le> cos t ^ n - cos t ^ Suc n"
      using c by (simp add: mult_left_le_one_le)
    ultimately show "\<exists>y. DERIV (\<lambda>t. cos_prim n t - cos_prim (Suc n) t) t :> y \<and> 0 \<le> y"
      by blast
  qed
  then show ?thesis
    by (simp add: wallis_def)
qed

lemma wallis_pos_pair: "0 < wallis n \<and> 0 < wallis (Suc n)"
  by (induction n) (simp_all add: wallis_0 wallis_1 wallis_Suc_Suc del: of_nat_Suc)

lemma wallis_pos: "0 < wallis n"
  using wallis_pos_pair [of n] by simp

lemma wallis_product: "wallis n * wallis (Suc n) = pi / (2 * real (Suc n))"
proof (induction n)
  case 0
  show ?case by (simp add: wallis_0 wallis_1)
next
  case (Suc n)
  have "wallis (Suc n) * wallis (Suc (Suc n))
      = real (Suc n) / real (Suc (Suc n)) * (wallis n * wallis (Suc n))"
    by (simp add: wallis_Suc_Suc)
  also have "\<dots> = pi / (2 * real (Suc (Suc n)))"
    unfolding Suc.IH by (simp add: field_simps del: of_nat_Suc)
  finally show ?case .
qed




lemma gauss_prim_upper:
  assumes "0 \<le> x"
  shows "gauss_prim x \<le> sqrt (real (Suc n)) * wallis (2 * n)"
proof -
  define r where "r = sqrt (real (Suc n))"
  define g where "g = (\<lambda>t. r * cos_prim (2 * n) t - gauss_prim (r * tan t))"
  define b where "b = arctan (x / r)"
  have r: "0 < r" "r\<^sup>2 = real (Suc n)"
    by (simp_all add: r_def)
  have b: "0 \<le> b" "b < pi / 2"
    using assms r arctan_ubound [of "x / r"] by (simp_all add: b_def)
  have "g 0 \<le> g b"
  proof (rule DERIV_nonneg_imp_nondecreasing [where f = g])
    show "0 \<le> b" by fact
  next
    fix t :: real assume t: "0 \<le> t" "t \<le> b"
    then have c: "0 < cos t"
      using b by (intro cos_gt_zero_pi) auto
    have d1: "DERIV (\<lambda>t. r * tan t) t :> r * inverse ((cos t)\<^sup>2)"
      using c by (intro DERIV_cmult DERIV_tan) simp
    have "DERIV g t :> r * cos t ^ (2 * n) - exp (- ((r * tan t)\<^sup>2)) * (r * inverse ((cos t)\<^sup>2))"
      unfolding g_def
      by (intro DERIV_diff DERIV_chain2 [OF DERIV_gauss_prim d1] DERIV_cmult DERIV_cos_prim)
    moreover have "0 \<le> r * cos t ^ (2 * n) - exp (- ((r * tan t)\<^sup>2)) * (r * inverse ((cos t)\<^sup>2))"
    proof -
      have "1 / (cos t)\<^sup>2 = 1 + (tan t)\<^sup>2"
        using c sin_cos_squared_add [of t] by (simp add: tan_def field_simps)
      also have "\<dots> \<le> exp ((tan t)\<^sup>2)"
        by (rule exp_ge_add_one_self)
      finally have "exp (- ((tan t)\<^sup>2)) \<le> (cos t)\<^sup>2"
        using c by (simp add: exp_minus field_simps)
      then have "exp (- ((tan t)\<^sup>2)) ^ Suc n \<le> ((cos t)\<^sup>2) ^ Suc n"
        by (intro power_mono) simp_all
      moreover have "exp (- ((tan t)\<^sup>2)) ^ Suc n = exp (- ((r * tan t)\<^sup>2))"
        unfolding exp_of_nat_mult [symmetric] by (simp add: power_mult_distrib r del: of_nat_Suc)
      moreover have "((cos t)\<^sup>2) ^ Suc n = cos t ^ (2 * n) * (cos t)\<^sup>2"
        by (simp add: power_mult power2_eq_square power_mult_distrib)
      ultimately have "exp (- ((r * tan t)\<^sup>2)) \<le> cos t ^ (2 * n) * (cos t)\<^sup>2"
        by (simp del: power_Suc)
      then have "exp (- ((r * tan t)\<^sup>2)) * (r * inverse ((cos t)\<^sup>2))
          \<le> (cos t ^ (2 * n) * (cos t)\<^sup>2) * (r * inverse ((cos t)\<^sup>2))"
        using c r by (intro mult_right_mono) simp_all
      also have "\<dots> = r * cos t ^ (2 * n)"
        using c by simp
      finally show ?thesis by simp
    qed
    ultimately show "\<exists>y. DERIV g t :> y \<and> 0 \<le> y"
      by blast
  qed
  then have "gauss_prim (r * tan b) \<le> r * cos_prim (2 * n) b"
    by (simp add: g_def gauss_prim_0)
  also have "r * tan b = x"
    using r by (simp add: b_def tan_arctan)
  also have "r * cos_prim (2 * n) b \<le> r * cos_prim (2 * n) (pi / 2)"
    using b r by (intro mult_left_mono cos_prim_mono) simp_all
  finally show ?thesis
    by (simp add: wallis_def r_def)
qed


lemma gauss_prim_sq_upper:
  assumes "0 \<le> x"
  shows "(gauss_prim x)\<^sup>2 \<le> (1 + inverse (real (Suc n))) * (pi / 4)"
proof -
  let ?m = "Suc n"
  have w: "0 < wallis (2 * ?m)"
    by (rule wallis_pos)
  have "0 \<le> gauss_prim x"
    using gauss_prim_mono [OF assms] by (simp add: gauss_prim_0)
  moreover have "gauss_prim x \<le> sqrt (real (Suc ?m)) * wallis (2 * ?m)"
    by (rule gauss_prim_upper [OF assms])
  ultimately have "(gauss_prim x)\<^sup>2 \<le> (sqrt (real (Suc ?m)) * wallis (2 * ?m))\<^sup>2"
    by (intro power_mono) simp_all
  also have "\<dots> = real (Suc ?m) * (wallis (2 * ?m) * wallis (2 * ?m))"
    by (simp add: power_mult_distrib power2_eq_square del: of_nat_Suc)
  also have "\<dots> \<le> real (Suc ?m) * (wallis (2 * n + 1) * wallis (2 * ?m))"
  proof -
    have "wallis (2 * ?m) \<le> wallis (2 * n + 1)"
      using wallis_decreasing [of "2 * n + 1"] by simp
    then show ?thesis
      using w by (intro mult_left_mono mult_right_mono) simp_all
  qed
  also have "wallis (2 * n + 1) * wallis (2 * ?m) = pi / (2 * real (2 * ?m))"
    using wallis_product [of "2 * n + 1"] by simp
  also have "real (Suc ?m) * (pi / (2 * real (2 * ?m))) = (1 + inverse (real (Suc n))) * (pi / 4)"
    by (simp add: field_simps)
  finally show ?thesis .
qed

lemma gauss_prim_le: "gauss_prim x \<le> sqrt pi / 2"
proof (cases "0 \<le> x")
  case True
  have "(\<lambda>n. (1 + inverse (real (Suc n))) * (pi / 4)) \<longlonglongrightarrow> (1 + 0) * (pi / 4)"
    by (intro tendsto_intros LIMSEQ_inverse_real_of_nat)
  then have "(gauss_prim x)\<^sup>2 \<le> (1 + 0) * (pi / 4)"
    by (rule LIMSEQ_le_const) (use gauss_prim_sq_upper [OF True] in blast)
  then have "(gauss_prim x)\<^sup>2 \<le> (sqrt pi / 2)\<^sup>2"
    by (simp add: power_divide)
  then show ?thesis
    by (rule power2_le_imp_le) simp
next
  case False
  then have "gauss_prim x \<le> gauss_prim 0"
    by (intro gauss_prim_mono) simp
  also have "\<dots> \<le> sqrt pi / 2"
    by (simp add: gauss_prim_0)
  finally show ?thesis .
qed



lemma gauss_prim_less: "gauss_prim x < sqrt pi / 2"
  using gauss_prim_strict_mono [of x "x + 1"] gauss_prim_le [of "x + 1"] by simp

section \<open>The error function\<close>



lemma erf_minus: "erf (- x) = - erf x"
  by (simp add: erf_def gauss_prim_minus)

lemma erf_strict_mono: "a < b \<Longrightarrow> erf a < erf b"
  unfolding erf_def by (intro mult_strict_left_mono gauss_prim_strict_mono) simp_all

lemma erf_less_1: "erf x < 1"
proof -
  have "2 / sqrt pi * gauss_prim x < 2 / sqrt pi * (sqrt pi / 2)"
    by (intro mult_strict_left_mono gauss_prim_less) simp
  then show ?thesis
    by (simp add: erf_def)
qed

lemma erf_greater: "- 1 < erf x"
  using erf_less_1 [of "- x"] by (simp add: erf_minus)



lemma erfc_pos: "0 < erfc x"
  using erf_less_1 [of x] by (simp add: erfc_def)

lemma erfc_less_2: "erfc x < 2"
  using erf_greater [of x] by (simp add: erfc_def)






section \<open>Density and cumulative function on valid parameters\<close>










subsection \<open>Limits\<close>














section \<open>The interpolated quantile\<close>

subsection \<open>Interpolation in a table of a strictly increasing function\<close>






subsection \<open>The grid\<close>


subsection \<open>The quantile of \<open>EMG_gen2\<close> on valid parameters\<close>










section \<open>The sum of a normal and an exponential variable\<close>

lemma exp_neg_at_top: "((\<lambda>t::real. exp (- t)) \<longlongrightarrow> 0) at_top"
  by (rule filterlim_compose [OF exp_at_bot]) (simp add: filterlim_uminus_at_bot filterlim_ident)



section \<open>Moments\<close>

subsection \<open>Integrals over the real line\<close>





subsection \<open>Decay of powers against exponentials\<close>





subsection \<open>The normal density and the density of the family\<close>







subsection \<open>Decay of the densities\<close>






subsection \<open>Moments of the normal density\<close>




subsection \<open>Moments of the density of the family\<close>




subsection \<open>The analytic moments\<close>





section \<open>Density and cumulative function agree\<close>





section \<open>Clamping and round trip of the interpolated quantile\<close>





section \<open>The analytic moments are the moments of the density\<close>



section \<open>The sampler of \<open>EMG_gen3\<close>\<close>



section \<open>The parameter validator\<close>

lemma isfinite_iff: "isfinite a \<longleftrightarrow> (\<exists>r. a = Finite r)"
  by (cases a) simp_all

lemma gt_zero_iff: "gt_zero a \<longleftrightarrow> a = PosInf \<or> (\<exists>r. a = Finite r \<and> 0 < r)"
  by (cases a) simp_all

text \<open>
  C6: \<open>_argcheck\<close> is true exactly when \<open>mu\<close> is finite, \<open>sig > 0\<close> and \<open>lam > 0\<close>
  (the comparison of floats, which \<open>+inf\<close> passes); it is false on every zero or
  negative \<open>sig\<close> and on every non-finite \<open>mu\<close>.
\<close>

theorem argcheck_exact:
  "(EMG_gen1_argcheck mu sig lam \<longleftrightarrow>
      (\<exists>m. mu = Finite m) \<and> (sig = PosInf \<or> (\<exists>s. sig = Finite s \<and> 0 < s))
        \<and> (lam = PosInf \<or> (\<exists>l. lam = Finite l \<and> 0 < l)))
   \<and> (\<forall>s. s \<le> 0 \<longrightarrow> \<not> EMG_gen1_argcheck mu (Finite s) lam)
   \<and> \<not> EMG_gen1_argcheck mu NegInf lam
   \<and> \<not> EMG_gen1_argcheck mu NaN lam
   \<and> \<not> EMG_gen1_argcheck PosInf sig lam
   \<and> \<not> EMG_gen1_argcheck NegInf sig lam
   \<and> \<not> EMG_gen1_argcheck NaN sig lam"
  by (simp add: EMG_gen1_argcheck_def isfinite_iff gt_zero_iff)

theorem argcheck_exact_witness:
  "EMG_gen1_argcheck (Finite 0) (Finite 1) (Finite (1/2))
   \<and> \<not> EMG_gen1_argcheck (Finite 0) (Finite (- 1)) (Finite (1/2))
   \<and> \<not> EMG_gen1_argcheck (Finite 0) (Finite 0) (Finite (1/2))
   \<and> \<not> EMG_gen1_argcheck PosInf (Finite 1) (Finite (1/2))"
  using argcheck_exact [of "Finite 0" "Finite 1" "Finite (1/2)"]
    argcheck_exact [of "Finite 0" "Finite (- 1)" "Finite (1/2)"]
    argcheck_exact [of "Finite 0" "Finite 0" "Finite (1/2)"]
    argcheck_exact [of PosInf "Finite 1" "Finite (1/2)"]
  by (auto intro: exI [of _ "1/2"])

section \<open>Invalid parameters\<close>




section \<open>The three variants\<close>

text \<open>
  C9: \<open>EMG_gen2\<close> and \<open>EMG_gen3\<close> have the density, the cumulative function, the moments
  and the validator of \<open>EMG_gen1\<close>, so the public density, cumulative function and
  moments of the three variants agree on every input; \<open>EMG_gen2\<close> is \<open>EMG_gen1\<close> with
  its own quantile and \<open>EMG_gen3\<close> is \<open>EMG_gen1\<close> with its own sampler.
\<close>

theorem variants_share_inherited_methods:
  "m_pdf EMG_gen2 = m_pdf EMG_gen1 \<and> m_pdf EMG_gen3 = m_pdf EMG_gen1
   \<and> m_cdf EMG_gen2 = m_cdf EMG_gen1 \<and> m_cdf EMG_gen3 = m_cdf EMG_gen1
   \<and> m_stats EMG_gen2 = m_stats EMG_gen1 \<and> m_stats EMG_gen3 = m_stats EMG_gen1
   \<and> m_argcheck EMG_gen2 = m_argcheck EMG_gen1 \<and> m_argcheck EMG_gen3 = m_argcheck EMG_gen1
   \<and> rv_pdf EMG_gen2 x mu sig lam = rv_pdf EMG_gen1 x mu sig lam
   \<and> rv_pdf EMG_gen3 x mu sig lam = rv_pdf EMG_gen1 x mu sig lam
   \<and> rv_cdf EMG_gen2 x mu sig lam = rv_cdf EMG_gen1 x mu sig lam
   \<and> rv_cdf EMG_gen3 x mu sig lam = rv_cdf EMG_gen1 x mu sig lam
   \<and> rv_stats EMG_gen2 mu sig lam = rv_stats EMG_gen1 mu sig lam
   \<and> rv_stats EMG_gen3 mu sig lam = rv_stats EMG_gen1 mu sig lam
   \<and> EMG_gen2 = EMG_gen1\<lparr>m_ppf := Some EMG_gen2_ppf\<rparr>
   \<and> EMG_gen3 = EMG_gen1\<lparr>m_rvs := Some EMG_gen3_rvs\<rparr>
   \<and> m_ppf EMG_gen1 = None \<and> m_ppf EMG_gen3 = None \<and> m_ppf EMG_gen2 = Some EMG_gen2_ppf
   \<and> m_rvs EMG_gen1 = None \<and> m_rvs EMG_gen2 = None \<and> m_rvs EMG_gen3 = Some EMG_gen3_rvs"
proof -
  have m: "m_pdf EMG_gen2 = m_pdf EMG_gen1" "m_pdf EMG_gen3 = m_pdf EMG_gen1"
    "m_cdf EMG_gen2 = m_cdf EMG_gen1" "m_cdf EMG_gen3 = m_cdf EMG_gen1"
    "m_stats EMG_gen2 = m_stats EMG_gen1" "m_stats EMG_gen3 = m_stats EMG_gen1"
    "m_argcheck EMG_gen2 = m_argcheck EMG_gen1" "m_argcheck EMG_gen3 = m_argcheck EMG_gen1"
    by (simp_all add: EMG_gen2_def EMG_gen3_def)
  have o: "m_ppf EMG_gen1 = None" "m_ppf EMG_gen3 = None" "m_ppf EMG_gen2 = Some EMG_gen2_ppf"
    "m_rvs EMG_gen1 = None" "m_rvs EMG_gen2 = None" "m_rvs EMG_gen3 = Some EMG_gen3_rvs"
    by (simp_all add: EMG_gen2_def EMG_gen3_def EMG_gen1_def)
  show ?thesis
    unfolding rv_pdf_def rv_cdf_def rv_stats_def m o
    by (intro conjI refl EMG_gen2_def EMG_gen3_def)
qed

section \<open>The fit of the last cell\<close>

text \<open>
  C8: the cell that fits the sample looks up \<open>EMG\<close>, which no cell binds (the instances
  are \<open>EMG1\<close>, \<open>EMG2\<close> and \<open>EMG3\<close>): whatever the fit would return, the cell raises
  \<open>NameError\<close>.
\<close>

theorem fit_cell_raises_NameError: "fit_cell fit = Inl (NameError ''EMG'')"
  by (simp add: fit_cell_def lookup_global_def notebook_globals_def)

end
